theory Spec2Isabelle
  imports Main "HOL-Library.Sublist" "HOL-Library.Multiset"
begin

section \<open>The FileUploader component of chakra-file-uploader\<close>

text \<open>
  A shallow embedding of \<^verbatim>\<open>src/components/FileUploader.tsx\<close>: the drop traversal
  \<^verbatim>\<open>getAllFileEntries\<close>, the directory draining \<^verbatim>\<open>readAllDirectoryEntries\<close>, the
  \<^verbatim>\<open>onDrop\<close> and \<^verbatim>\<open>onChange\<close> handlers and \<^verbatim>\<open>formatFileSize\<close>.

  An asynchronous computation is modelled by the way its promise settles, a value of type
  \<open>(error + 'a) option\<close>: \<open>Some (Inr v)\<close> is fulfilled with \<open>v\<close>, \<open>Some (Inl e)\<close> is
  rejected with \<open>e\<close>, and \<open>None\<close> is a promise that never settles (a callback that is
  never called, or a loop that never ends).
\<close>

subsection \<open>JavaScript strings\<close>

text \<open>
  \<^verbatim>\<open>s.split(sep)\<close> for a separator of one character: the list of the segments between
  the separators. It is never empty: \<^verbatim>\<open>"".split("/")\<close> is \<^verbatim>\<open>[""]\<close>.
\<close>

fun js_split :: "string \<Rightarrow> char \<Rightarrow> string list" where
  "js_split [] sep = [[]]"
| "js_split (c # cs) sep =
     (if c = sep then [] # js_split cs sep
      else (c # hd (js_split cs sep)) # tl (js_split cs sep))"

text \<open>
  \<^verbatim>\<open>s.replace(pat, rep)\<close> for a string pattern: only the first occurrence of \<open>pat\<close>,
  scanning from the left, is replaced. (The source's replacement is always the empty
  string, so the \<^verbatim>\<open>$\<close> patterns of a replacement string play no role.)
\<close>

fun js_replace :: "string \<Rightarrow> string \<Rightarrow> string \<Rightarrow> string" where
  "js_replace [] pat rep = (if pat = [] then rep else [])"
| "js_replace (c # cs) pat rep =
     (if prefix pat (c # cs) then rep @ drop (length pat) (c # cs)
      else c # js_replace cs pat rep)"

text \<open>Decimal rendering of a natural number, as \<^verbatim>\<open>String(n)\<close> does for an integer.\<close>

definition digit :: "nat \<Rightarrow> char" where
  "digit d = ''0123456789'' ! d"

fun string_of_nat :: "nat \<Rightarrow> string" where
  "string_of_nat n =
     (if n < 10 then [digit n] else string_of_nat (n div 10) @ [digit (n mod 10)])"

text \<open>
  \<^verbatim>\<open>(b / d).toFixed(1)\<close> for a byte count \<open>b \<ge> 0\<close> and a divisor \<open>d > 0\<close>: the
  quotient rounded to the nearest tenth, a tie going up, with exactly one digit after the
  point. The model rounds the exact quotient; the quotients used below are exact in
  binary floating point as well.
\<close>

definition toFixed1 :: "nat \<Rightarrow> nat \<Rightarrow> string" where
  "toFixed1 b d =
     (let n = (20 * b + d) div (2 * d)
      in string_of_nat (n div 10) @ ''.'' @ [digit (n mod 10)])"

subsection \<open>Data model\<close>

text \<open>The exported interface \<^verbatim>\<open>fileType\<close>: one entry of the delivered list.\<close>

datatype entryType = File | Folder

record fileType =
  path :: string
  type :: entryType
  name :: string
  mimeType :: string
  data :: string

text \<open>
  The component's properties that the logic reads: \<^verbatim>\<open>maxSize\<close> (a number, \<open>-1\<close> for
  no bound) and \<^verbatim>\<open>fileType\<close> (one of the strings \<^verbatim>\<open>"image"\<close>, \<^verbatim>\<open>"video"\<close>,
  \<^verbatim>\<open>"audio"\<close>, \<^verbatim>\<open>"text"\<close>, \<^verbatim>\<open>"pdf"\<close>, \<^verbatim>\<open>"other"\<close>; it is compared as a string).
\<close>

record props =
  maxSize :: int
  fileType :: string

datatype error = ReadError | TypeError

text \<open>
  The platform's objects. A \<^verbatim>\<open>File\<close> has a name, a media type and a size; reading it
  with a \<^verbatim>\<open>FileReader\<close> ends in \<^verbatim>\<open>onload\<close> with \<^verbatim>\<open>reader.result\<close> (a string, or
  null) or in \<^verbatim>\<open>onerror\<close>.
\<close>

datatype readResult = OnLoad "string option" | OnError

record blob =
  file_name :: string
  file_type :: string
  file_size :: nat
  file_read :: readResult

text \<open>
  A directory reader answers the successive calls of \<^verbatim>\<open>readEntries\<close>: call number
  \<open>n\<close> (from 0) invokes the success callback with a batch of entries or the error
  callback. A \<^verbatim>\<open>FileSystemFileEntry\<close> has a full path, a name and the file that
  \<^verbatim>\<open>entry.file(callback)\<close> passes to its callback (\<open>None\<close>: the call fails, and the
  source gives no error callback). A \<^verbatim>\<open>FileSystemDirectoryEntry\<close> has a full path, a
  name and the reader that \<^verbatim>\<open>createReader()\<close> returns.
\<close>

datatype 'e readEntriesResult = SuccessCallback "'e list" | ErrorCallback

datatype entry =
    FileSystemFileEntry string string "blob option"
  | FileSystemDirectoryEntry string string "nat \<Rightarrow> entry readEntriesResult"

type_synonym directoryReader = "nat \<Rightarrow> entry readEntriesResult"

subsection \<open>Draining a directory reader\<close>

text \<open>
  \<^verbatim>\<open>readEntriesPromise\<close> awaits one call of \<^verbatim>\<open>readEntries\<close>. A rejection is caught
  and logged, and the function then returns nothing: the awaited value is
  \<^verbatim>\<open>undefined\<close>, here \<open>None\<close>. The argument \<open>n\<close> is the number of calls made on
  the reader before this one.
\<close>

definition readEntriesPromise :: "directoryReader \<Rightarrow> nat \<Rightarrow> entry list option" where
  "readEntriesPromise directoryReader n =
     (case directoryReader n of
        SuccessCallback es \<Rightarrow> Some es
      | ErrorCallback \<Rightarrow> None)"

text \<open>
  The \<^verbatim>\<open>while\<close> loop of \<^verbatim>\<open>readAllDirectoryEntries\<close>, entered with \<open>n\<close> calls made,
  the last awaited batch and the entries collected so far. Reading \<^verbatim>\<open>.length\<close> of
  \<^verbatim>\<open>undefined\<close> throws a TypeError, which rejects the promise of the async function.
  A reader that never delivers an empty batch keeps the loop running: the result is
  \<open>None\<close>.
\<close>

partial_function (option) readAllDirectoryEntries_while ::
  "directoryReader \<Rightarrow> nat \<Rightarrow> entry list option \<Rightarrow> entry list \<Rightarrow> (error + entry list) option"
where
  "readAllDirectoryEntries_while directoryReader n readEntries entries =
     (case readEntries of
        None \<Rightarrow> Some (Inl TypeError)
      | Some batch \<Rightarrow>
          if length batch > 0
          then readAllDirectoryEntries_while directoryReader (Suc n)
                 (readEntriesPromise directoryReader n) (entries @ batch)
          else Some (Inr entries))"

declare readAllDirectoryEntries_while.simps [code]

definition readAllDirectoryEntries :: "directoryReader \<Rightarrow> (error + entry list) option" where
  "readAllDirectoryEntries directoryReader =
     readAllDirectoryEntries_while directoryReader 1 (readEntriesPromise directoryReader 0) []"

subsection \<open>Reading and filtering one file\<close>

text \<open>\<^verbatim>\<open>s || d\<close> on strings: the empty string is falsy.\<close>

definition js_or :: "string \<Rightarrow> string \<Rightarrow> string" where
  "js_or s d = (if s = [] then d else s)"

text \<open>\<^verbatim>\<open>reader.result?.toString() || ""\<close>\<close>

definition resultString :: "string option \<Rightarrow> string" where
  "resultString r = (case r of None \<Rightarrow> [] | Some s \<Rightarrow> js_or s [])"

text \<open>
  The condition under the comment \<^verbatim>\<open>// Do all the checks\<close>, the same text in
  \<^verbatim>\<open>getAllFileEntries\<close> and in \<^verbatim>\<open>onChange\<close>.
\<close>

definition checks :: "props \<Rightarrow> blob \<Rightarrow> bool" where
  "checks p f \<longleftrightarrow>
     (maxSize p = - 1 \<or> int (file_size f) < maxSize p) \<and>
     (js_split (file_type f) CHR ''/'' ! 0 = fileType p \<or>
      (file_type f = ''application/pdf'' \<and> fileType p = ''pdf'') \<or>
      fileType p = ''other'')"

text \<open>
  The promise awaited for a file entry of the drop (lines 64 to 94), as a function of
  the list \<^verbatim>\<open>fileEntries\<close> before it: the list after it when the promise is
  fulfilled. \<^verbatim>\<open>entry.file\<close> is called without an error callback, so when it fails
  neither \<^verbatim>\<open>resolve\<close> nor \<^verbatim>\<open>reject\<close> is ever called.
\<close>

definition readDroppedFile ::
  "props \<Rightarrow> string \<Rightarrow> string \<Rightarrow> blob option \<Rightarrow> fileType list \<Rightarrow> (error + fileType list) option"
where
  "readDroppedFile p fullPath entryName fo fileEntries =
     (case fo of
        None \<Rightarrow> None
      | Some f \<Rightarrow>
          (case file_read f of
             OnError \<Rightarrow> Some (Inl ReadError)
           | OnLoad r \<Rightarrow>
               Some (Inr
                 (if checks p f
                  then fileEntries @
                    [\<lparr>path = js_replace fullPath entryName [],
                      type = File,
                      name = file_name f,
                      mimeType = js_or (file_type f) ''application/octet-stream'',
                      data = resultString r\<rparr>]
                  else fileEntries))))"

text \<open>The entry pushed for a directory (lines 97 to 103).\<close>

definition folderEntry :: "string \<Rightarrow> string \<Rightarrow> fileType" where
  "folderEntry fullPath entryName =
     \<lparr>path = js_replace fullPath entryName [],
      type = Folder,
      name = entryName,
      mimeType = ''folder/folder'',
      data = []\<rparr>"

subsection \<open>The drop traversal\<close>

text \<open>
  One iteration of the \<^verbatim>\<open>while (queue.length > 0)\<close> loop of
  \<^verbatim>\<open>getAllFileEntries\<close>, for the entry that \<^verbatim>\<open>queue.shift()\<close> returned and the
  queue left: the queue and the list after the iteration. The queue holds what
  \<^verbatim>\<open>webkitGetAsEntry()\<close> returned, which is null for an item that is no file system
  entry; a null entry takes neither branch. A rejected \<^verbatim>\<open>await\<close> is not caught, so it
  rejects the promise of \<^verbatim>\<open>getAllFileEntries\<close>.
\<close>

definition getAllFileEntries_body ::
  "props \<Rightarrow> entry option \<Rightarrow> entry option list \<Rightarrow> fileType list \<Rightarrow>
     (error + entry option list \<times> fileType list) option"
where
  "getAllFileEntries_body p entry queue fileEntries =
     (case entry of
        None \<Rightarrow> Some (Inr (queue, fileEntries))
      | Some (FileSystemFileEntry fullPath entryName fo) \<Rightarrow>
          (case readDroppedFile p fullPath entryName fo fileEntries of
             None \<Rightarrow> None
           | Some (Inl err) \<Rightarrow> Some (Inl err)
           | Some (Inr fileEntries') \<Rightarrow> Some (Inr (queue, fileEntries')))
      | Some (FileSystemDirectoryEntry fullPath entryName reader) \<Rightarrow>
          (case readAllDirectoryEntries reader of
             None \<Rightarrow> None
           | Some (Inl err) \<Rightarrow> Some (Inl err)
           | Some (Inr children) \<Rightarrow>
               Some (Inr (queue @ map Some children,
                          fileEntries @ [folderEntry fullPath entryName]))))"

text \<open>The loop: it returns the list when the queue is empty.\<close>

partial_function (option) getAllFileEntries_while ::
  "props \<Rightarrow> entry option list \<Rightarrow> fileType list \<Rightarrow> (error + fileType list) option"
where
  "getAllFileEntries_while p queue fileEntries =
     (case queue of
        [] \<Rightarrow> Some (Inr fileEntries)
      | entry # rest \<Rightarrow>
          (case getAllFileEntries_body p entry rest fileEntries of
             None \<Rightarrow> None
           | Some (Inl err) \<Rightarrow> Some (Inl err)
           | Some (Inr (queue', fileEntries')) \<Rightarrow>
               getAllFileEntries_while p queue' fileEntries'))"

declare getAllFileEntries_while.simps [code]

text \<open>
  \<^verbatim>\<open>getAllFileEntries\<close>: the queue is seeded with the entries of all the items of the
  \<^verbatim>\<open>DataTransferItemList\<close>, in their order, and the list starts empty.
\<close>

definition getAllFileEntries :: "props \<Rightarrow> entry option list \<Rightarrow> (error + fileType list) option" where
  "getAllFileEntries p dataTransferItemList = getAllFileEntries_while p dataTransferItemList []"

text \<open>
  The state (queue and list) of the loop after \<open>k\<close> iterations, when the loop runs
  that many: \<open>None\<close> when it has returned, rejected or stopped advancing before.
\<close>

fun stateAfter ::
  "props \<Rightarrow> nat \<Rightarrow> entry option list \<times> fileType list \<Rightarrow>
     (entry option list \<times> fileType list) option"
where
  "stateAfter p 0 s = Some s"
| "stateAfter p (Suc k) (queue, fileEntries) =
     (case queue of
        [] \<Rightarrow> None
      | entry # rest \<Rightarrow>
          (case getAllFileEntries_body p entry rest fileEntries of
             Some (Inr s') \<Rightarrow> stateAfter p k s'
           | _ \<Rightarrow> None))"

text \<open>
  The calls of the two callbacks that a handler makes, in order. \<^verbatim>\<open>onDrop\<close> looks at
  \<^verbatim>\<open>e.dataTransfer.files.length\<close> and traverses \<^verbatim>\<open>e.dataTransfer.items\<close>;
  \<^verbatim>\<open>onUploadEnd\<close> is called only when the awaited traversal is fulfilled.
\<close>

datatype callback = OnUploadStart | OnUploadEnd "fileType list"

record dataTransfer =
  files_length :: nat
  items :: "entry option list"

definition onDrop :: "props \<Rightarrow> dataTransfer \<Rightarrow> callback list" where
  "onDrop p dt =
     (if files_length dt > 0
      then OnUploadStart #
        (case getAllFileEntries p (items dt) of
           Some (Inr its) \<Rightarrow> [OnUploadEnd its]
         | _ \<Rightarrow> [])
      else [])"

subsection \<open>The native file dialog\<close>

text \<open>
  The promise awaited for index \<open>i\<close> of the selection (lines 265 to 295):
  \<^verbatim>\<open>files.item(i)\<close> is a file or null, and for null the executor does nothing.
\<close>

definition readSelectedFile ::
  "props \<Rightarrow> blob option \<Rightarrow> fileType list \<Rightarrow> (error + fileType list) option"
where
  "readSelectedFile p fo its =
     (case fo of
        None \<Rightarrow> None
      | Some f \<Rightarrow>
          (case file_read f of
             OnError \<Rightarrow> Some (Inl ReadError)
           | OnLoad r \<Rightarrow>
               Some (Inr
                 (if checks p f
                  then its @
                    [\<lparr>path = ''/'',
                      type = File,
                      name = file_name f,
                      mimeType = js_or (file_type f) ''application/octet-stream'',
                      data = resultString r\<rparr>]
                  else its))))"

text \<open>The \<^verbatim>\<open>for\<close> loop of \<^verbatim>\<open>onChange\<close> over the remaining indices.\<close>

fun onChange_for :: "props \<Rightarrow> blob option list \<Rightarrow> fileType list \<Rightarrow> (error + fileType list) option" where
  "onChange_for p [] its = Some (Inr its)"
| "onChange_for p (fo # rest) its =
     (case readSelectedFile p fo its of
        None \<Rightarrow> None
      | Some (Inl err) \<Rightarrow> Some (Inl err)
      | Some (Inr its') \<Rightarrow> onChange_for p rest its')"

text \<open>\<^verbatim>\<open>onChange\<close>: \<^verbatim>\<open>e.target.files\<close> is a list of files or null.\<close>

definition onChange :: "props \<Rightarrow> blob option list option \<Rightarrow> callback list" where
  "onChange p target_files =
     (case target_files of
        None \<Rightarrow> []
      | Some fs \<Rightarrow>
          if length fs > 0
          then OnUploadStart #
            (case onChange_for p fs [] of
               Some (Inr its) \<Rightarrow> [OnUploadEnd its]
             | _ \<Rightarrow> [])
          else [])"

subsection \<open>The size formatter\<close>

text \<open>
  \<^verbatim>\<open>formatFileSize\<close> on an integer byte count, branch by branch with the source's
  constants.
\<close>

definition formatFileSize :: "int \<Rightarrow> string" where
  "formatFileSize bytes =
     (if bytes \<ge> 1000000000000 then toFixed1 (nat bytes) 100000000000 @ '' TB''
      else if bytes \<ge> 1000000000 then toFixed1 (nat bytes) 100000000 @ '' GB''
      else if bytes \<ge> 1000000 then toFixed1 (nat bytes) 1000000 @ '' MB''
      else if bytes \<ge> 1000 then toFixed1 (nat bytes) 1000 @ '' KB''
      else if bytes > 1 then string_of_nat (nat bytes) @ '' bytes''
      else if bytes = 1 then string_of_nat (nat bytes) @ '' byte''
      else ''0 GB'')"

subsection \<open>The specification's wording\<close>

text \<open>
  The filter as the specification words it: the size is unbounded or strictly below the
  maximum, and the top-level segment of the media type (the text before the first
  \<^verbatim>\<open>/\<close>) is the configured category, or the file is a PDF under the category
  \<^verbatim>\<open>"pdf"\<close>, or the category is \<^verbatim>\<open>"other"\<close>.
\<close>

definition topLevelSegment :: "string \<Rightarrow> string" where
  "topLevelSegment t = takeWhile (\<lambda>c. c \<noteq> CHR ''/'') t"

definition accepted :: "props \<Rightarrow> blob \<Rightarrow> bool" where
  "accepted p f \<longleftrightarrow>
     (maxSize p = - 1 \<or> int (file_size f) < maxSize p) \<and>
     (topLevelSegment (file_type f) = fileType p \<or>
      (file_type f = ''application/pdf'' \<and> fileType p = ''pdf'') \<or>
      fileType p = ''other'')"

text \<open>
  The path as the specification words it: the full path without its trailing name
  segment.
\<close>

definition stripTrailingName :: "string \<Rightarrow> string \<Rightarrow> string" where
  "stripTrailingName fullPath entryName = take (length fullPath - length entryName) fullPath"

subsection \<open>Example inputs\<close>

text \<open>
  The drop of the specification's scenario: a file \<^verbatim>\<open>X\<close> (image/png, 500 bytes) and
  a folder \<^verbatim>\<open>Y\<close> holding a file \<^verbatim>\<open>Z\<close> (image/png, 2,000,000 bytes), under a
  maximum size of 1,000,000 and the category \<^verbatim>\<open>"image"\<close>. The reader of \<^verbatim>\<open>Y\<close>
  delivers \<^verbatim>\<open>Z\<close> in its first batch and empty batches afterwards.
\<close>

definition scenarioProps :: props where
  "scenarioProps = \<lparr>maxSize = 1000000, fileType = ''image''\<rparr>"

definition fileX :: blob where
  "fileX = \<lparr>file_name = ''X'', file_type = ''image/png'', file_size = 500,
            file_read = OnLoad (Some ''data:image/png;base64,WA=='')\<rparr>"

definition fileZ :: blob where
  "fileZ = \<lparr>file_name = ''Z'', file_type = ''image/png'', file_size = 2000000,
            file_read = OnLoad (Some ''data:image/png;base64,Wg=='')\<rparr>"

definition entryX :: entry where
  "entryX = FileSystemFileEntry ''/X'' ''X'' (Some fileX)"

definition entryZ :: entry where
  "entryZ = FileSystemFileEntry ''/Y/Z'' ''Z'' (Some fileZ)"

definition readerY :: directoryReader where
  "readerY = (\<lambda>n. if n = 0 then SuccessCallback [entryZ] else SuccessCallback [])"

definition entryY :: entry where
  "entryY = FileSystemDirectoryEntry ''/Y'' ''Y'' readerY"

definition scenarioDrop :: "entry option list" where
  "scenarioDrop = [Some entryX, Some entryY]"

text \<open>A file whose read fails, and a reader that delivers three entries in two batches.\<close>

definition fileBroken :: blob where
  "fileBroken = \<lparr>file_name = ''B'', file_type = ''image/png'', file_size = 10,
                 file_read = OnError\<rparr>"

definition entryBroken :: entry where
  "entryBroken = FileSystemFileEntry ''/B'' ''B'' (Some fileBroken)"

definition readerTwoBatches :: directoryReader where
  "readerTwoBatches =
     (\<lambda>n. if n = 0 then SuccessCallback [entryX, entryZ]
          else if n = 1 then SuccessCallback [entryBroken]
          else SuccessCallback [])"

text \<open>A selection in the native dialog: two PDF files and a text file.\<close>

definition pdfProps :: props where
  "pdfProps = \<lparr>maxSize = 10000000, fileType = ''pdf''\<rparr>"

definition pdfOne :: blob where
  "pdfOne = \<lparr>file_name = ''one.pdf'', file_type = ''application/pdf'', file_size = 1200,
             file_read = OnLoad (Some ''data:application/pdf;base64,JVBERg=='')\<rparr>"

definition pdfTwo :: blob where
  "pdfTwo = \<lparr>file_name = ''two.pdf'', file_type = ''application/pdf'', file_size = 3400,
             file_read = OnLoad (Some ''data:application/pdf;base64,JVBERi0='')\<rparr>"

definition textFile :: blob where
  "textFile = \<lparr>file_name = ''notes.txt'', file_type = ''text/plain'', file_size = 12,
               file_read = OnLoad (Some ''data:text/plain;base64,aGk='')\<rparr>"

section \<open>Properties\<close>

subsection \<open>The traversal loop\<close>


lemma readDroppedFile_prefix:
  "readDroppedFile p fullPath entryName fo fileEntries = Some (Inr fileEntries') \<Longrightarrow>
     prefix fileEntries fileEntries'"
  by (auto simp: readDroppedFile_def split: option.splits readResult.splits if_splits)

lemma getAllFileEntries_body_prefix:
  "getAllFileEntries_body p entry queue fileEntries = Some (Inr (queue', fileEntries')) \<Longrightarrow>
     prefix fileEntries fileEntries'"
  by (auto simp: getAllFileEntries_body_def dest: readDroppedFile_prefix
      split: option.splits entry.splits sum.splits)

lemma getAllFileEntries_while_prefix_aux:
  "getAllFileEntries_while p queue fileEntries = Some r \<Longrightarrow>
     (\<forall>out. r = Inr out \<longrightarrow> prefix fileEntries out)"
proof (induct rule: getAllFileEntries_while.raw_induct [rotated, consumes 1])
  case (1 loop p queue fileEntries r)
  show ?case
  proof (intro allI impI)
    fix out
    assume r: "r = Inr out"
    show "prefix fileEntries out"
    proof (cases queue)
      case Nil
      with 1(2) r show ?thesis by simp
    next
      case (Cons entry rest)
      with 1(2) r obtain queue' fileEntries' where
        body: "getAllFileEntries_body p entry rest fileEntries = Some (Inr (queue', fileEntries'))"
        and rec: "loop p queue' fileEntries' = Some r"
        by (auto split: option.splits sum.splits)
      from 1(1) rec r have "prefix fileEntries' out" by simp
      with getAllFileEntries_body_prefix [OF body] show ?thesis
        by (rule prefix_order.trans)
    qed
  qed
qed

lemma getAllFileEntries_while_prefix:
  "getAllFileEntries_while p queue fileEntries = Some (Inr out) \<Longrightarrow> prefix fileEntries out"
  using getAllFileEntries_while_prefix_aux by blast

lemma getAllFileEntries_while_Cons:
  "getAllFileEntries_while p (entry # rest) fileEntries =
     (case getAllFileEntries_body p entry rest fileEntries of
        None \<Rightarrow> None
      | Some (Inl err) \<Rightarrow> Some (Inl err)
      | Some (Inr (queue', fileEntries')) \<Rightarrow> getAllFileEntries_while p queue' fileEntries')"
  by (subst getAllFileEntries_while.simps) simp

lemma getAllFileEntries_while_Nil:
  "getAllFileEntries_while p [] fileEntries = Some (Inr fileEntries)"
  by (subst getAllFileEntries_while.simps) simp

lemma stateAfter_while:
  "stateAfter p k s = Some s' \<Longrightarrow>
     getAllFileEntries_while p (fst s) (snd s) = getAllFileEntries_while p (fst s') (snd s')"
proof (induction p k s rule: stateAfter.induct)
  case (1 p s)
  then show ?case by simp
next
  case (2 p k queue fileEntries)
  from "2.prems" obtain entry rest s1 where
    q: "queue = entry # rest"
    and body: "getAllFileEntries_body p entry rest fileEntries = Some (Inr s1)"
    and rest: "stateAfter p k s1 = Some s'"
    by (auto split: list.splits option.splits sum.splits)
  from "2.IH" [OF q body refl rest]
  have "getAllFileEntries_while p (fst s1) (snd s1) =
        getAllFileEntries_while p (fst s') (snd s')" .
  then show ?case
    by (cases s1) (simp add: q getAllFileEntries_while_Cons body)
qed

lemma stateAfter_add:
  "stateAfter p (k + j) s =
     (case stateAfter p k s of None \<Rightarrow> None | Some s' \<Rightarrow> stateAfter p j s')"
proof (induction p k s rule: stateAfter.induct)
  case (1 p s)
  then show ?case by simp
next
  case (2 p k queue fileEntries)
  then show ?case
    by (auto split: list.splits option.splits sum.splits)
qed


subsection \<open>Strings\<close>

lemma js_split_not_Nil: "js_split s sep \<noteq> []"
  by (induction s) auto

lemma js_split_first: "js_split s sep ! 0 = takeWhile (\<lambda>c. c \<noteq> sep) s"
proof (induction s)
  case Nil
  then show ?case by simp
next
  case (Cons c cs)
  then show ?case
    using js_split_not_Nil [of cs sep] by (cases "js_split cs sep") auto
qed

lemma checks_accepted: "checks p f \<longleftrightarrow> accepted p f"
  by (simp add: checks_def accepted_def topLevelSegment_def js_split_first)

subsection \<open>Draining\<close>

lemma readAllDirectoryEntries_while_drain:
  assumes batches: "\<forall>i<length bs. reader i = SuccessCallback (bs ! i) \<and> bs ! i \<noteq> []"
    and last: "reader (length bs) = SuccessCallback []"
  shows "n \<le> length bs \<Longrightarrow>
    readAllDirectoryEntries_while reader (Suc n) (readEntriesPromise reader n) entries =
      Some (Inr (entries @ concat (drop n bs)))"
proof (induction "length bs - n" arbitrary: n entries)
  case 0
  then have n: "n = length bs" by simp
  have "readEntriesPromise reader n = Some []"
    using last by (simp add: readEntriesPromise_def n)
  then show ?case
    by (subst readAllDirectoryEntries_while.simps) (simp add: n)
next
  case (Suc k)
  then have lt: "n < length bs" by simp
  with batches have b: "reader n = SuccessCallback (bs ! n)" and ne: "bs ! n \<noteq> []"
    by simp_all
  have p: "readEntriesPromise reader n = Some (bs ! n)"
    by (simp add: readEntriesPromise_def b)
  have step: "readAllDirectoryEntries_while reader (Suc n) (readEntriesPromise reader n) entries =
      readAllDirectoryEntries_while reader (Suc (Suc n)) (readEntriesPromise reader (Suc n))
        (entries @ bs ! n)"
    by (subst readAllDirectoryEntries_while.simps) (simp add: p ne)
  have ih: "readAllDirectoryEntries_while reader (Suc (Suc n)) (readEntriesPromise reader (Suc n))
        (entries @ bs ! n) = Some (Inr ((entries @ bs ! n) @ concat (drop (Suc n) bs)))"
    using Suc.hyps(1) [of "Suc n" "entries @ bs ! n"] Suc.hyps(2) lt by simp
  have "drop n bs = bs ! n # drop (Suc n) bs"
    using lt by (simp add: Cons_nth_drop_Suc)
  with step ih show ?case by simp
qed

lemmas scenario_defs =
  scenarioProps_def fileX_def fileZ_def entryX_def entryZ_def readerY_def entryY_def
  scenarioDrop_def fileBroken_def entryBroken_def readerTwoBatches_def
  pdfProps_def pdfOne_def pdfTwo_def textFile_def

lemmas model_defs =
  getAllFileEntries_def getAllFileEntries_while_Cons getAllFileEntries_while_Nil
  getAllFileEntries_body_def readDroppedFile_def readSelectedFile_def checks_def
  readAllDirectoryEntries_def readAllDirectoryEntries_while.simps readEntriesPromise_def
  folderEntry_def js_or_def resultString_def onDrop_def onChange_def

text \<open>
  Claim C4. When a directory reader delivers its children in a finite sequence of
  non-empty batches \<open>bs\<close> and then an empty batch, \<^verbatim>\<open>readAllDirectoryEntries\<close> is
  fulfilled with the concatenation of the batches in order: every child is there exactly
  as often as the batches hold it, none duplicated and none left out.
\<close>

theorem readAllDirectoryEntries_concat:
  assumes "\<forall>i<length bs. reader i = SuccessCallback (bs ! i) \<and> bs ! i \<noteq> []"
    and "reader (length bs) = SuccessCallback []"
  shows "readAllDirectoryEntries reader = Some (Inr (concat bs)) \<and>
         mset (concat bs) = (\<Sum>b\<leftarrow>bs. mset b)"
  using readAllDirectoryEntries_while_drain [OF assms, of 0 "[]"]
  by (simp add: readAllDirectoryEntries_def mset_concat)

theorem readAllDirectoryEntries_concat_witness:
  "readerTwoBatches 0 = SuccessCallback [entryX, entryZ] \<and>
   readerTwoBatches 1 = SuccessCallback [entryBroken] \<and>
   readerTwoBatches 2 = SuccessCallback [] \<and>
   readAllDirectoryEntries readerTwoBatches = Some (Inr [entryX, entryZ, entryBroken])"
proof -
  have h1: "\<forall>i<length [[entryX, entryZ], [entryBroken]].
      readerTwoBatches i = SuccessCallback ([[entryX, entryZ], [entryBroken]] ! i) \<and>
      [[entryX, entryZ], [entryBroken]] ! i \<noteq> []"
    by (simp add: readerTwoBatches_def less_Suc_eq)
  have h2: "readerTwoBatches (length [[entryX, entryZ], [entryBroken]]) = SuccessCallback []"
    by (simp add: readerTwoBatches_def)
  from readAllDirectoryEntries_concat [OF h1 h2] show ?thesis
    by (simp add: readerTwoBatches_def)
qed

subsection \<open>The filter\<close>

text \<open>
  Claim C1. For a file whose read completes, on the drop path and on the dialog path
  alike, a File entry is appended to the list if and only if the file passes the
  specification's filter; a file that fails it leaves the list as it was, and the promise
  is fulfilled all the same (no error). Both loops then go on with the rest of the queue,
  or of the selection, and with that list.
\<close>

theorem append_iff_accepted:
  assumes "file_read f = OnLoad r"
  shows "((\<exists>e. readDroppedFile p fullPath entryName (Some f) fileEntries =
               Some (Inr (fileEntries @ [e])) \<and> type e = File) \<longleftrightarrow> accepted p f) \<and>
         (\<not> accepted p f \<longrightarrow>
            readDroppedFile p fullPath entryName (Some f) fileEntries = Some (Inr fileEntries)) \<and>
         ((\<exists>e. readSelectedFile p (Some f) its = Some (Inr (its @ [e])) \<and> type e = File)
            \<longleftrightarrow> accepted p f) \<and>
         (\<not> accepted p f \<longrightarrow> readSelectedFile p (Some f) its = Some (Inr its)) \<and>
         getAllFileEntries_while p (Some (FileSystemFileEntry fullPath entryName (Some f)) # queue)
             fileEntries =
           getAllFileEntries_while p queue
             (if accepted p f
              then fileEntries @
                [\<lparr>path = js_replace fullPath entryName [], type = File, name = file_name f,
                  mimeType = js_or (file_type f) ''application/octet-stream'',
                  data = resultString r\<rparr>]
              else fileEntries) \<and>
         onChange_for p (Some f # selection) its =
           onChange_for p selection
             (if accepted p f
              then its @
                [\<lparr>path = ''/'', type = File, name = file_name f,
                  mimeType = js_or (file_type f) ''application/octet-stream'',
                  data = resultString r\<rparr>]
              else its)"
proof -
  have dropped: "readDroppedFile p fullPath entryName (Some f) fileEntries =
      Some (Inr (if accepted p f
        then fileEntries @
          [\<lparr>path = js_replace fullPath entryName [], type = File, name = file_name f,
            mimeType = js_or (file_type f) ''application/octet-stream'',
            data = resultString r\<rparr>]
        else fileEntries))"
    using assms by (simp add: readDroppedFile_def checks_accepted)
  have selected: "readSelectedFile p (Some f) its =
      Some (Inr (if accepted p f
        then its @
          [\<lparr>path = ''/'', type = File, name = file_name f,
            mimeType = js_or (file_type f) ''application/octet-stream'',
            data = resultString r\<rparr>]
        else its))"
    using assms by (simp add: readSelectedFile_def checks_accepted)
  have "getAllFileEntries_body p (Some (FileSystemFileEntry fullPath entryName (Some f))) queue
      fileEntries =
      Some (Inr (queue, if accepted p f
        then fileEntries @
          [\<lparr>path = js_replace fullPath entryName [], type = File, name = file_name f,
            mimeType = js_or (file_type f) ''application/octet-stream'',
            data = resultString r\<rparr>]
        else fileEntries))"
    by (simp add: getAllFileEntries_body_def dropped)
  then have loop_dropped:
    "getAllFileEntries_while p (Some (FileSystemFileEntry fullPath entryName (Some f)) # queue)
       fileEntries =
     getAllFileEntries_while p queue
       (if accepted p f
        then fileEntries @
          [\<lparr>path = js_replace fullPath entryName [], type = File, name = file_name f,
            mimeType = js_or (file_type f) ''application/octet-stream'',
            data = resultString r\<rparr>]
        else fileEntries)"
    by (simp add: getAllFileEntries_while_Cons)
  have loop_selected: "onChange_for p (Some f # selection) its =
     onChange_for p selection
       (if accepted p f
        then its @
          [\<lparr>path = ''/'', type = File, name = file_name f,
            mimeType = js_or (file_type f) ''application/octet-stream'',
            data = resultString r\<rparr>]
        else its)"
    by (simp add: selected)
  have "(\<exists>e. readDroppedFile p fullPath entryName (Some f) fileEntries =
               Some (Inr (fileEntries @ [e])) \<and> type e = File) \<longleftrightarrow> accepted p f"
    by (simp add: dropped)
  moreover have "\<not> accepted p f \<longrightarrow>
      readDroppedFile p fullPath entryName (Some f) fileEntries = Some (Inr fileEntries)"
    by (simp add: dropped)
  moreover have "(\<exists>e. readSelectedFile p (Some f) its = Some (Inr (its @ [e])) \<and>
      type e = File) \<longleftrightarrow> accepted p f"
    by (simp add: selected)
  moreover have "\<not> accepted p f \<longrightarrow> readSelectedFile p (Some f) its = Some (Inr its)"
    by (simp add: selected)
  ultimately show ?thesis
    using loop_dropped loop_selected by blast
qed

theorem append_iff_accepted_witness:
  "file_read fileX = OnLoad (Some ''data:image/png;base64,WA=='') \<and>
   accepted scenarioProps fileX \<and>
   (\<exists>e. readDroppedFile scenarioProps ''/X'' ''X'' (Some fileX) [] = Some (Inr ([] @ [e])) \<and>
        type e = File) \<and>
   (\<exists>e. readSelectedFile scenarioProps (Some fileX) [] = Some (Inr ([] @ [e])) \<and>
        type e = File) \<and>
   file_read fileZ = OnLoad (Some ''data:image/png;base64,Wg=='') \<and>
   \<not> accepted scenarioProps fileZ \<and>
   readDroppedFile scenarioProps ''/Y/Z'' ''Z'' (Some fileZ) [] = Some (Inr []) \<and>
   readSelectedFile scenarioProps (Some fileZ) [] = Some (Inr [])"
proof -
  have x: "file_read fileX = OnLoad (Some ''data:image/png;base64,WA=='')"
    by (simp add: fileX_def)
  have z: "file_read fileZ = OnLoad (Some ''data:image/png;base64,Wg=='')"
    by (simp add: fileZ_def)
  have ax: "accepted scenarioProps fileX"
    by (simp add: accepted_def topLevelSegment_def scenarioProps_def fileX_def)
  have az: "\<not> accepted scenarioProps fileZ"
    by (simp add: accepted_def topLevelSegment_def scenarioProps_def fileZ_def)
  from append_iff_accepted [OF x, of scenarioProps "''/X''" "''X''" "[]" "[]" "[]" "[]"]
    append_iff_accepted [OF z, of scenarioProps "''/Y/Z''" "''Z''" "[]" "[]" "[]" "[]"]
    x z ax az
  show ?thesis by blast
qed


subsection \<open>Folders and order of the drop traversal\<close>

lemma stateAfter_Suc_end:
  "stateAfter p k s = Some (entry # rest, fileEntries) \<Longrightarrow>
     stateAfter p (Suc k) s =
       (case getAllFileEntries_body p entry rest fileEntries of
          Some (Inr s') \<Rightarrow> Some s'
        | _ \<Rightarrow> None)"
  using stateAfter_add [of p k "Suc 0" s]
  by (simp split: option.splits sum.splits)

lemma stateAfter_prefix:
  "stateAfter p j s = Some s' \<Longrightarrow> prefix (snd s) (snd s')"
proof (induction p j s rule: stateAfter.induct)
  case (1 p s)
  then show ?case by simp
next
  case (2 p j queue fileEntries)
  from "2.prems" obtain entry rest s1 where
    q: "queue = entry # rest"
    and body: "getAllFileEntries_body p entry rest fileEntries = Some (Inr s1)"
    and later: "stateAfter p j s1 = Some s'"
    by (auto split: list.splits option.splits sum.splits)
  from "2.IH" [OF q body refl later] have "prefix (snd s1) (snd s')" .
  moreover from body have "prefix fileEntries (snd s1)"
    by (cases s1) (auto dest: getAllFileEntries_body_prefix)
  ultimately show ?case
    by (auto intro: prefix_order.trans)
qed

lemma stateAfter_later_prefix:
  assumes "stateAfter p k s = Some (queue, fileEntries)"
    and "k \<le> m" and "stateAfter p m s = Some (queue', fileEntries')"
  shows "prefix fileEntries fileEntries'"
proof -
  from assms(2) obtain j where m: "m = k + j"
    by (auto simp: le_iff_add)
  from stateAfter_add [of p k j s] assms(1,3)
  have "stateAfter p j (queue, fileEntries) = Some (queue', fileEntries')"
    by (simp add: m)
  from stateAfter_prefix [OF this] show ?thesis
    by simp
qed

text \<open>
  Claim C2. Let the traversal of a drop, after some number \<open>k\<close> of iterations, have a
  directory at the head of its queue, and let the directory's reader deliver its children
  in non-empty batches \<open>bs\<close> and then an empty batch. Nothing is assumed about how the
  traversal ends. Then the iteration for the directory appends exactly one entry, the
  Folder entry of the directory, under any properties \<open>p'\<close> whatever, and puts the
  children at the tail of the queue: this is the state after \<open>k + 1\<close> iterations. In
  every later state that the traversal reaches, whether it is fulfilled, rejected or never
  settles in the end, the list is the list from before the directory, the Folder entry,
  and what was produced since. A file dequeued later (each child file is one) that is read
  and accepted has its entry appended after the Folder entry. If the traversal is
  fulfilled, its output has the Folder entry at that place.
\<close>

theorem folder_entry_for_each_directory:
  assumes reach: "stateAfter p k (dataTransferItemList, []) =
      Some (Some (FileSystemDirectoryEntry fullPath entryName reader) # queue, fileEntries)"
    and batches: "\<forall>i<length bs. reader i = SuccessCallback (bs ! i) \<and> bs ! i \<noteq> []"
    and last: "reader (length bs) = SuccessCallback []"
  shows "(\<forall>p'. getAllFileEntries_body p' (Some (FileSystemDirectoryEntry fullPath entryName reader))
             queue fileEntries =
           Some (Inr (queue @ map Some (concat bs),
                      fileEntries @ [folderEntry fullPath entryName]))) \<and>
     stateAfter p (Suc k) (dataTransferItemList, []) =
       Some (queue @ map Some (concat bs), fileEntries @ [folderEntry fullPath entryName]) \<and>
     type (folderEntry fullPath entryName) = Folder \<and>
     (\<forall>m queue' fileEntries'.
        k < m \<and> stateAfter p m (dataTransferItemList, []) = Some (queue', fileEntries') \<longrightarrow>
        (\<exists>rest. fileEntries' = fileEntries @ folderEntry fullPath entryName # rest)) \<and>
     (\<forall>m queue' fileEntries' childPath childName f r.
        k < m \<and>
        stateAfter p m (dataTransferItemList, []) =
          Some (Some (FileSystemFileEntry childPath childName (Some f)) # queue', fileEntries') \<and>
        file_read f = OnLoad r \<and> accepted p f \<longrightarrow>
        (\<exists>rest.
           stateAfter p (Suc m) (dataTransferItemList, []) =
             Some (queue',
               fileEntries @ folderEntry fullPath entryName # rest @
                 [\<lparr>path = js_replace childPath childName [], type = File, name = file_name f,
                   mimeType = js_or (file_type f) ''application/octet-stream'',
                   data = resultString r\<rparr>]))) \<and>
     (\<forall>out. getAllFileEntries p dataTransferItemList = Some (Inr out) \<longrightarrow>
        (\<exists>rest. out = fileEntries @ folderEntry fullPath entryName # rest))"
proof -
  let ?dir = "FileSystemDirectoryEntry fullPath entryName reader"
  let ?folder = "folderEntry fullPath entryName"
  let ?s = "(dataTransferItemList, [])"
  have drained: "readAllDirectoryEntries reader = Some (Inr (concat bs))"
    using readAllDirectoryEntries_while_drain [OF batches last, of 0 "[]"]
    by (simp add: readAllDirectoryEntries_def)
  have body: "\<And>p'. getAllFileEntries_body p' (Some ?dir) queue fileEntries =
      Some (Inr (queue @ map Some (concat bs), fileEntries @ [?folder]))"
    by (simp add: getAllFileEntries_body_def drained)
  have "stateAfter p (Suc k) ?s =
      (case getAllFileEntries_body p (Some ?dir) queue fileEntries of
         Some (Inr s') \<Rightarrow> Some s'
       | _ \<Rightarrow> None)"
    by (rule stateAfter_Suc_end [OF reach])
  then have next_state: "stateAfter p (Suc k) ?s =
      Some (queue @ map Some (concat bs), fileEntries @ [?folder])"
    by (simp only: body option.case sum.case)
  have folder: "type ?folder = Folder"
    by (simp add: folderEntry_def)
  have later: "\<exists>rest. fileEntries' = fileEntries @ ?folder # rest"
    if "k < m" and "stateAfter p m ?s = Some (queue', fileEntries')"
    for m queue' fileEntries'
  proof -
    from that(1) have "Suc k \<le> m" by simp
    from stateAfter_later_prefix [OF next_state this that(2)]
    show ?thesis
      by (auto simp: prefix_def)
  qed
  have child: "\<exists>rest. stateAfter p (Suc m) ?s =
      Some (queue',
        fileEntries @ ?folder # rest @
          [\<lparr>path = js_replace childPath childName [], type = File, name = file_name f,
            mimeType = js_or (file_type f) ''application/octet-stream'',
            data = resultString r\<rparr>])"
    if "k < m"
      and at: "stateAfter p m ?s =
        Some (Some (FileSystemFileEntry childPath childName (Some f)) # queue', fileEntries')"
      and "file_read f = OnLoad r" and "accepted p f"
    for m queue' fileEntries' childPath childName f r
  proof -
    from later [OF that(1) at] obtain rest where
      rest: "fileEntries' = fileEntries @ ?folder # rest"
      by blast
    have "getAllFileEntries_body p (Some (FileSystemFileEntry childPath childName (Some f)))
        queue' fileEntries' =
        Some (Inr (queue',
          fileEntries' @
            [\<lparr>path = js_replace childPath childName [], type = File, name = file_name f,
              mimeType = js_or (file_type f) ''application/octet-stream'',
              data = resultString r\<rparr>]))"
      using that(3,4)
      by (simp add: getAllFileEntries_body_def readDroppedFile_def checks_accepted)
    with stateAfter_Suc_end [OF at]
    have "stateAfter p (Suc m) ?s =
        Some (queue',
          fileEntries' @
            [\<lparr>path = js_replace childPath childName [], type = File, name = file_name f,
              mimeType = js_or (file_type f) ''application/octet-stream'',
              data = resultString r\<rparr>])"
      by (simp only: option.case sum.case)
    then show ?thesis
      by (simp add: rest)
  qed
  have at_end: "\<exists>rest. out = fileEntries @ ?folder # rest"
    if "getAllFileEntries p dataTransferItemList = Some (Inr out)" for out
  proof -
    from stateAfter_while [OF next_state] that
    have "getAllFileEntries_while p (queue @ map Some (concat bs)) (fileEntries @ [?folder]) =
        Some (Inr out)"
      by (simp add: getAllFileEntries_def)
    from getAllFileEntries_while_prefix [OF this] show ?thesis
      by (auto simp: prefix_def)
  qed
  from body next_state folder later child at_end show ?thesis
    by blast
qed

theorem folder_entry_for_each_directory_witness:
  "stateAfter \<lparr>maxSize = - 1, fileType = ''other''\<rparr> (Suc 0)
     ([Some entryX, Some entryY, Some entryBroken], []) =
     Some ([Some (FileSystemDirectoryEntry ''/Y'' ''Y'' readerY), Some entryBroken],
        [\<lparr>path = ''/'', type = File, name = ''X'', mimeType = ''image/png'',
          data = ''data:image/png;base64,WA==''\<rparr>]) \<and>
   readerY 0 = SuccessCallback [entryZ] \<and>
   readerY 1 = SuccessCallback [] \<and>
   stateAfter \<lparr>maxSize = - 1, fileType = ''other''\<rparr> 2
     ([Some entryX, Some entryY, Some entryBroken], []) =
     Some ([Some entryBroken, Some entryZ],
        [\<lparr>path = ''/'', type = File, name = ''X'', mimeType = ''image/png'',
          data = ''data:image/png;base64,WA==''\<rparr>,
         \<lparr>path = ''/'', type = Folder, name = ''Y'', mimeType = ''folder/folder'',
          data = []\<rparr>]) \<and>
   getAllFileEntries \<lparr>maxSize = - 1, fileType = ''other''\<rparr>
     [Some entryX, Some entryY, Some entryBroken] = Some (Inl ReadError) \<and>
   stateAfter \<lparr>maxSize = - 1, fileType = ''other''\<rparr> (Suc 0) (scenarioDrop, []) =
     Some ([Some (FileSystemDirectoryEntry ''/Y'' ''Y'' readerY)],
        [\<lparr>path = ''/'', type = File, name = ''X'', mimeType = ''image/png'',
          data = ''data:image/png;base64,WA==''\<rparr>]) \<and>
   stateAfter \<lparr>maxSize = - 1, fileType = ''other''\<rparr> 2 (scenarioDrop, []) =
     Some ([Some (FileSystemFileEntry ''/Y/Z'' ''Z'' (Some fileZ))],
        [\<lparr>path = ''/'', type = File, name = ''X'', mimeType = ''image/png'',
          data = ''data:image/png;base64,WA==''\<rparr>,
         \<lparr>path = ''/'', type = Folder, name = ''Y'', mimeType = ''folder/folder'',
          data = []\<rparr>]) \<and>
   accepted \<lparr>maxSize = - 1, fileType = ''other''\<rparr> fileZ \<and>
   (\<exists>rest.
      stateAfter \<lparr>maxSize = - 1, fileType = ''other''\<rparr> 3 (scenarioDrop, []) =
        Some ([],
          [\<lparr>path = ''/'', type = File, name = ''X'', mimeType = ''image/png'',
             data = ''data:image/png;base64,WA==''\<rparr>] @
          \<lparr>path = ''/'', type = Folder, name = ''Y'', mimeType = ''folder/folder'',
             data = []\<rparr> # rest @
          [\<lparr>path = ''/Y/'', type = File, name = ''Z'', mimeType = ''image/png'',
             data = ''data:image/png;base64,Wg==''\<rparr>])) \<and>
   getAllFileEntries \<lparr>maxSize = - 1, fileType = ''other''\<rparr> scenarioDrop =
     Some (Inr
       [\<lparr>path = ''/'', type = File, name = ''X'', mimeType = ''image/png'',
          data = ''data:image/png;base64,WA==''\<rparr>,
        \<lparr>path = ''/'', type = Folder, name = ''Y'', mimeType = ''folder/folder'',
          data = []\<rparr>,
        \<lparr>path = ''/Y/'', type = File, name = ''Z'', mimeType = ''image/png'',
          data = ''data:image/png;base64,Wg==''\<rparr>])"
proof -
  let ?p = "\<lparr>maxSize = - 1, fileType = ''other''\<rparr>"
  let ?x = "\<lparr>path = ''/'', type = File, name = ''X'', mimeType = ''image/png'',
          data = ''data:image/png;base64,WA==''\<rparr>"
  let ?y = "\<lparr>path = ''/'', type = Folder, name = ''Y'', mimeType = ''folder/folder'',
          data = []\<rparr>"
  let ?z = "\<lparr>path = ''/Y/'', type = File, name = ''Z'', mimeType = ''image/png'',
          data = ''data:image/png;base64,Wg==''\<rparr>"
  have y: "folderEntry ''/Y'' ''Y'' = ?y"
    by (simp add: folderEntry_def)
  have b0: "readerY 0 = SuccessCallback [entryZ]" and b1: "readerY 1 = SuccessCallback []"
    by (simp_all add: readerY_def)
  have batches: "\<forall>i<length [[entryZ]]. readerY i = SuccessCallback ([[entryZ]] ! i) \<and>
      [[entryZ]] ! i \<noteq> []"
    using b0 by simp
  have last: "readerY (length [[entryZ]]) = SuccessCallback []"
    using b1 by simp
  have reach1: "stateAfter ?p (Suc 0) ([Some entryX, Some entryY, Some entryBroken], []) =
      Some (Some (FileSystemDirectoryEntry ''/Y'' ''Y'' readerY) # [Some entryBroken], [?x])"
    by (simp add: entryX_def fileX_def entryY_def model_defs)
  have reach2: "stateAfter ?p (Suc 0) (scenarioDrop, []) =
      Some (Some (FileSystemDirectoryEntry ''/Y'' ''Y'' readerY) # [], [?x])"
    by (simp add: scenarioDrop_def entryX_def fileX_def entryY_def model_defs)
  note rejecting = folder_entry_for_each_directory [OF reach1 batches last]
  note fulfilling = folder_entry_for_each_directory [OF reach2 batches last]
  from rejecting have state1: "stateAfter ?p 2 ([Some entryX, Some entryY, Some entryBroken], []) =
      Some ([Some entryBroken, Some entryZ], [?x, ?y])"
    by (simp add: y numeral_2_eq_2)
  have rejected: "getAllFileEntries ?p [Some entryX, Some entryY, Some entryBroken] =
      Some (Inl ReadError)"
    using stateAfter_while [OF state1]
    by (simp add: getAllFileEntries_def getAllFileEntries_while_Cons getAllFileEntries_body_def
        readDroppedFile_def entryBroken_def fileBroken_def)
  from fulfilling have state2: "stateAfter ?p 2 (scenarioDrop, []) =
      Some (Some (FileSystemFileEntry ''/Y/Z'' ''Z'' (Some fileZ)) # [], [?x, ?y])"
    by (simp add: y numeral_2_eq_2 entryZ_def)
  have acc: "accepted ?p fileZ"
    by (simp add: accepted_def)
  have read: "file_read fileZ = OnLoad (Some ''data:image/png;base64,Wg=='')"
    by (simp add: fileZ_def)
  from fulfilling have "\<forall>m queue' fileEntries' childPath childName f r.
        Suc 0 < m \<and>
        stateAfter ?p m (scenarioDrop, []) =
          Some (Some (FileSystemFileEntry childPath childName (Some f)) # queue', fileEntries') \<and>
        file_read f = OnLoad r \<and> accepted ?p f \<longrightarrow>
        (\<exists>rest.
           stateAfter ?p (Suc m) (scenarioDrop, []) =
             Some (queue',
               [?x] @ folderEntry ''/Y'' ''Y'' # rest @
                 [\<lparr>path = js_replace childPath childName [], type = File, name = file_name f,
                   mimeType = js_or (file_type f) ''application/octet-stream'',
                   data = resultString r\<rparr>]))"
    by blast
  from this [rule_format, of 2 "''/Y/Z''" "''Z''" fileZ "[]" "[?x, ?y]"
      "Some ''data:image/png;base64,Wg==''"] state2 acc read
  obtain rest where state3: "stateAfter ?p (Suc 2) (scenarioDrop, []) =
      Some ([], [?x] @ folderEntry ''/Y'' ''Y'' # rest @
        [\<lparr>path = js_replace ''/Y/Z'' ''Z'' [], type = File, name = file_name fileZ,
          mimeType = js_or (file_type fileZ) ''application/octet-stream'',
          data = resultString (Some ''data:image/png;base64,Wg=='')\<rparr>])"
    by auto
  have z: "\<lparr>path = js_replace ''/Y/Z'' ''Z'' [], type = File, name = file_name fileZ,
          mimeType = js_or (file_type fileZ) ''application/octet-stream'',
          data = resultString (Some ''data:image/png;base64,Wg=='')\<rparr> = ?z"
    by (simp add: fileZ_def js_or_def resultString_def)
  have three: "Suc 2 = 3"
    by simp
  from state3 have state3': "stateAfter ?p 3 (scenarioDrop, []) =
      Some ([], [?x] @ ?y # rest @ [?z])"
    by (simp only: y z three)
  have out: "getAllFileEntries ?p scenarioDrop = Some (Inr [?x, ?y, ?z])"
    by (simp add: scenario_defs model_defs)
  from reach1 b0 b1 state1 rejected reach2 state2 acc state3' out show ?thesis
    by (simp only: entryZ_def) blast
qed

lemma readAllDirectoryEntries_one_batch:
  assumes "reader 0 = SuccessCallback [child]" and "reader 1 = SuccessCallback []"
  shows "readAllDirectoryEntries reader = Some (Inr [child])"
proof -
  have "\<forall>i<length [[child]]. reader i = SuccessCallback ([[child]] ! i) \<and> [[child]] ! i \<noteq> []"
    using assms(1) by simp
  moreover have "reader (length [[child]]) = SuccessCallback []"
    using assms(2) by simp
  ultimately show ?thesis
    using readAllDirectoryEntries_while_drain [of "[[child]]" reader 0 "[]"]
    by (simp add: readAllDirectoryEntries_def)
qed

text \<open>
  Claim C3. The traversal is breadth-first over one queue, seeded with the top-level
  items, the children of a directory going to the tail of the queue. For a drop of a
  folder A, whose reader delivers the one child file A1, and a top-level file B, both files
  readable and passing the filter: after the iteration for A the queue is B followed by
  A1, and in the output the Folder entry of A and the entry of B both come before the
  entry of A1, whether A or B was dropped first.
\<close>

theorem breadth_first_order:
  assumes "file_read fB = OnLoad rB" and "file_read fA1 = OnLoad rA1"
    and "accepted p fB" and "accepted p fA1"
    and "readerA 0 = SuccessCallback [FileSystemFileEntry pathA1 nameA1 (Some fA1)]"
    and "readerA 1 = SuccessCallback []"
  shows "stateAfter p (Suc 0)
           ([Some (FileSystemDirectoryEntry pathA nameA readerA),
             Some (FileSystemFileEntry pathB nameB (Some fB))], []) =
         Some ([Some (FileSystemFileEntry pathB nameB (Some fB)),
                Some (FileSystemFileEntry pathA1 nameA1 (Some fA1))],
               [folderEntry pathA nameA]) \<and>
         getAllFileEntries p
           [Some (FileSystemDirectoryEntry pathA nameA readerA),
            Some (FileSystemFileEntry pathB nameB (Some fB))] =
         Some (Inr
           [folderEntry pathA nameA,
            \<lparr>path = js_replace pathB nameB [], type = File, name = file_name fB,
              mimeType = js_or (file_type fB) ''application/octet-stream'',
              data = resultString rB\<rparr>,
            \<lparr>path = js_replace pathA1 nameA1 [], type = File, name = file_name fA1,
              mimeType = js_or (file_type fA1) ''application/octet-stream'',
              data = resultString rA1\<rparr>]) \<and>
         getAllFileEntries p
           [Some (FileSystemFileEntry pathB nameB (Some fB)),
            Some (FileSystemDirectoryEntry pathA nameA readerA)] =
         Some (Inr
           [\<lparr>path = js_replace pathB nameB [], type = File, name = file_name fB,
              mimeType = js_or (file_type fB) ''application/octet-stream'',
              data = resultString rB\<rparr>,
            folderEntry pathA nameA,
            \<lparr>path = js_replace pathA1 nameA1 [], type = File, name = file_name fA1,
              mimeType = js_or (file_type fA1) ''application/octet-stream'',
              data = resultString rA1\<rparr>])"
proof -
  have drained: "readAllDirectoryEntries readerA =
      Some (Inr [FileSystemFileEntry pathA1 nameA1 (Some fA1)])"
    using assms(5,6) by (rule readAllDirectoryEntries_one_batch)
  have cB: "checks p fB" and cA1: "checks p fA1"
    using assms(3,4) by (simp_all add: checks_accepted)
  show ?thesis
    by (simp add: getAllFileEntries_def getAllFileEntries_while_Cons
        getAllFileEntries_while_Nil getAllFileEntries_body_def readDroppedFile_def
        drained cB cA1 assms(1,2))
qed

theorem breadth_first_order_witness:
  "file_read fileX = OnLoad (Some ''data:image/png;base64,WA=='') \<and>
   file_read pdfOne = OnLoad (Some ''data:application/pdf;base64,JVBERg=='') \<and>
   accepted \<lparr>maxSize = - 1, fileType = ''other''\<rparr> fileX \<and>
   accepted \<lparr>maxSize = - 1, fileType = ''other''\<rparr> pdfOne \<and>
   getAllFileEntries \<lparr>maxSize = - 1, fileType = ''other''\<rparr>
     [Some (FileSystemDirectoryEntry ''/A'' ''A''
        (\<lambda>n. if n = 0 then SuccessCallback [FileSystemFileEntry ''/A/A1'' ''A1'' (Some pdfOne)]
             else SuccessCallback [])),
      Some (FileSystemFileEntry ''/B'' ''B'' (Some fileX))] =
   Some (Inr
     [\<lparr>path = ''/'', type = Folder, name = ''A'', mimeType = ''folder/folder'', data = []\<rparr>,
      \<lparr>path = ''/'', type = File, name = ''X'', mimeType = ''image/png'',
        data = ''data:image/png;base64,WA==''\<rparr>,
      \<lparr>path = ''/A/'', type = File, name = ''one.pdf'', mimeType = ''application/pdf'',
        data = ''data:application/pdf;base64,JVBERg==''\<rparr>])"
proof -
  let ?p = "\<lparr>maxSize = - 1, fileType = ''other''\<rparr>"
  let ?reader = "\<lambda>n::nat. if n = 0
    then SuccessCallback [FileSystemFileEntry ''/A/A1'' ''A1'' (Some pdfOne)]
    else SuccessCallback []"
  have h1: "file_read fileX = OnLoad (Some ''data:image/png;base64,WA=='')"
    by (simp add: fileX_def)
  have h2: "file_read pdfOne = OnLoad (Some ''data:application/pdf;base64,JVBERg=='')"
    by (simp add: pdfOne_def)
  have h3: "accepted ?p fileX" and h4: "accepted ?p pdfOne"
    by (simp_all add: accepted_def)
  have h5: "?reader 0 = SuccessCallback [FileSystemFileEntry ''/A/A1'' ''A1'' (Some pdfOne)]"
    by simp
  have h6: "?reader 1 = SuccessCallback []"
    by simp
  from breadth_first_order [OF h1 h2 h3 h4 h5 h6, of "''/A''" "''A''" "''/B''" "''B''"]
  have "getAllFileEntries ?p
     [Some (FileSystemDirectoryEntry ''/A'' ''A'' ?reader),
      Some (FileSystemFileEntry ''/B'' ''B'' (Some fileX))] =
   Some (Inr
     [folderEntry ''/A'' ''A'',
      \<lparr>path = js_replace ''/B'' ''B'' [], type = File, name = file_name fileX,
        mimeType = js_or (file_type fileX) ''application/octet-stream'',
        data = resultString (Some ''data:image/png;base64,WA=='')\<rparr>,
      \<lparr>path = js_replace ''/A/A1'' ''A1'' [], type = File, name = file_name pdfOne,
        mimeType = js_or (file_type pdfOne) ''application/octet-stream'',
        data = resultString (Some ''data:application/pdf;base64,JVBERg=='')\<rparr>])"
    by blast
  then have "getAllFileEntries ?p
     [Some (FileSystemDirectoryEntry ''/A'' ''A'' ?reader),
      Some (FileSystemFileEntry ''/B'' ''B'' (Some fileX))] =
   Some (Inr
     [\<lparr>path = ''/'', type = Folder, name = ''A'', mimeType = ''folder/folder'', data = []\<rparr>,
      \<lparr>path = ''/'', type = File, name = ''X'', mimeType = ''image/png'',
        data = ''data:image/png;base64,WA==''\<rparr>,
      \<lparr>path = ''/A/'', type = File, name = ''one.pdf'', mimeType = ''application/pdf'',
        data = ''data:application/pdf;base64,JVBERg==''\<rparr>])"
    by (simp add: folderEntry_def js_or_def resultString_def fileX_def pdfOne_def)
  with h1 h2 h3 h4 show ?thesis by simp
qed

text \<open>
  Claim C9, as the code has it. For the drop of the file X (image/png, 500 bytes) and the
  folder Y holding the file Z (image/png, 2,000,000 bytes), with a maximum size of
  1,000,000 and the category "image", the output is the File entry of X followed by the
  Folder entry of Y: X is first in the queue and is read before Y is expanded, and Z is
  left out by the size filter. The order the claim states, the Folder entry first, is
  not what the traversal returns.
\<close>

theorem scenario_output:
  "getAllFileEntries scenarioProps scenarioDrop =
     Some (Inr [\<lparr>path = ''/'', type = File, name = ''X'', mimeType = ''image/png'',
                 data = ''data:image/png;base64,WA==''\<rparr>,
                \<lparr>path = ''/'', type = Folder, name = ''Y'', mimeType = ''folder/folder'',
                 data = []\<rparr>])"
  by (simp add: scenario_defs model_defs)

theorem scenario_output_not_folder_first:
  "getAllFileEntries scenarioProps scenarioDrop \<noteq>
     Some (Inr [\<lparr>path = ''/'', type = Folder, name = ''Y'', mimeType = ''folder/folder'',
                 data = []\<rparr>,
                \<lparr>path = ''/'', type = File, name = ''X'', mimeType = ''image/png'',
                 data = ''data:image/png;base64,WA==''\<rparr>])"
  by (simp add: scenario_defs model_defs)

subsection \<open>Paths\<close>

text \<open>
  Claim C5 fails on the code: the path is computed by \<^verbatim>\<open>fullPath.replace(name, "")\<close>,
  which removes the first occurrence of the name, not the trailing one. For a folder
  \<^verbatim>\<open>img\<close> inside a dropped folder \<^verbatim>\<open>img\<close> (full path \<^verbatim>\<open>/img/img\<close>) the
  path of the entry is \<^verbatim>\<open>//img\<close>, where the full path without its trailing name is
  \<^verbatim>\<open>/img/\<close>; likewise for a file \<^verbatim>\<open>X\<close> inside a folder \<^verbatim>\<open>X\<close>.
\<close>

theorem path_removes_first_occurrence:
  "path (folderEntry ''/img/img'' ''img'') = ''//img'' \<and>
   stripTrailingName ''/img/img'' ''img'' = ''/img/'' \<and>
   readDroppedFile scenarioProps ''/X/X'' ''X'' (Some fileX) [] =
     Some (Inr [\<lparr>path = ''//X'', type = File, name = ''X'', mimeType = ''image/png'',
                 data = ''data:image/png;base64,WA==''\<rparr>]) \<and>
   stripTrailingName ''/X/X'' ''X'' = ''/X/''"
  by (simp add: stripTrailingName_def scenario_defs model_defs)

subsection \<open>Read failures\<close>

text \<open>
  Claim C6. When the traversal of a drop, after some number of iterations, has at the
  head of its queue a file whose read fails, \<^verbatim>\<open>getAllFileEntries\<close> is rejected with
  the read error, the loop makes no further iteration (whatever is left in the queue is
  not processed), and \<^verbatim>\<open>onDrop\<close> calls \<^verbatim>\<open>onUploadStart\<close> and never
  \<^verbatim>\<open>onUploadEnd\<close>.
\<close>

theorem read_failure_aborts_traversal:
  assumes reach: "stateAfter p k (items dt, []) =
      Some (Some (FileSystemFileEntry fullPath entryName (Some f)) # queue, fileEntries)"
    and failed: "file_read f = OnError"
    and dropped: "files_length dt > 0"
  shows "getAllFileEntries p (items dt) = Some (Inl ReadError) \<and>
         (\<forall>m>k. stateAfter p m (items dt, []) = None) \<and>
         onDrop p dt = [OnUploadStart]"
proof -
  let ?entry = "Some (FileSystemFileEntry fullPath entryName (Some f))"
  have body: "getAllFileEntries_body p ?entry queue fileEntries = Some (Inl ReadError)"
    by (simp add: getAllFileEntries_body_def readDroppedFile_def failed)
  from stateAfter_while [OF reach]
  have rejected: "getAllFileEntries p (items dt) = Some (Inl ReadError)"
    by (simp add: getAllFileEntries_def getAllFileEntries_while_Cons body)
  have stop: "stateAfter p m (items dt, []) = None" if "m > k" for m
  proof -
    from that obtain j where "m = Suc (k + j)"
      by (auto dest: less_imp_Suc_add)
    then have m: "m = k + Suc j"
      by simp
    have "stateAfter p (Suc j) (?entry # queue, fileEntries) = None"
      by (simp add: body)
    with stateAfter_add [of p k "Suc j" "(items dt, [])"] reach show ?thesis
      by (simp only: m option.case)
  qed
  from rejected have "onDrop p dt = [OnUploadStart]"
    by (simp add: onDrop_def dropped)
  with rejected stop show ?thesis by blast
qed

theorem read_failure_aborts_traversal_witness:
  "stateAfter scenarioProps (Suc 0)
     (items \<lparr>files_length = 3, items = [Some entryX, Some entryBroken, Some entryY]\<rparr>, []) =
     Some (Some (FileSystemFileEntry ''/B'' ''B'' (Some fileBroken)) # [Some entryY],
        [\<lparr>path = ''/'', type = File, name = ''X'', mimeType = ''image/png'',
          data = ''data:image/png;base64,WA==''\<rparr>]) \<and>
   file_read fileBroken = OnError \<and>
   getAllFileEntries scenarioProps [Some entryX, Some entryBroken, Some entryY] =
     Some (Inl ReadError) \<and>
   stateAfter scenarioProps 2
     (items \<lparr>files_length = 3, items = [Some entryX, Some entryBroken, Some entryY]\<rparr>, []) =
     None \<and>
   onDrop scenarioProps
     \<lparr>files_length = 3, items = [Some entryX, Some entryBroken, Some entryY]\<rparr> =
     [OnUploadStart]"
proof -
  let ?dt = "\<lparr>files_length = 3, items = [Some entryX, Some entryBroken, Some entryY]\<rparr>"
  have reach: "stateAfter scenarioProps (Suc 0) (items ?dt, []) =
     Some (Some (FileSystemFileEntry ''/B'' ''B'' (Some fileBroken)) # [Some entryY],
        [\<lparr>path = ''/'', type = File, name = ''X'', mimeType = ''image/png'',
          data = ''data:image/png;base64,WA==''\<rparr>])"
    by (simp add: scenarioProps_def entryX_def fileX_def entryBroken_def model_defs)
  have failed: "file_read fileBroken = OnError"
    by (simp add: fileBroken_def)
  have dropped: "files_length ?dt > 0"
    by simp
  from read_failure_aborts_traversal [OF reach failed dropped]
  have "getAllFileEntries scenarioProps (items ?dt) = Some (Inl ReadError)"
    and "stateAfter scenarioProps 2 (items ?dt, []) = None"
    and "onDrop scenarioProps ?dt = [OnUploadStart]"
    by simp_all
  with reach failed show ?thesis by simp
qed


subsection \<open>The native file dialog\<close>

lemma readSelectedFile_root_files:
  assumes "readSelectedFile p fo its = Some (Inr its')"
    and "\<forall>e\<in>set its. type e = File \<and> path e = ''/''"
  shows "\<forall>e\<in>set its'. type e = File \<and> path e = ''/''"
  using assms
  by (auto simp: readSelectedFile_def split: option.splits readResult.splits if_splits)

lemma onChange_for_root_files:
  "onChange_for p fs its = Some (Inr out) \<Longrightarrow>
   \<forall>e\<in>set its. type e = File \<and> path e = ''/'' \<Longrightarrow>
   \<forall>e\<in>set out. type e = File \<and> path e = ''/''"
proof (induction fs arbitrary: its)
  case Nil
  then show ?case by simp
next
  case (Cons fo fs)
  from Cons.prems(1) obtain its' where
    step: "readSelectedFile p fo its = Some (Inr its')"
    and rest: "onChange_for p fs its' = Some (Inr out)"
    by (auto split: option.splits sum.splits)
  from readSelectedFile_root_files [OF step Cons.prems(2)]
  have "\<forall>e\<in>set its'. type e = File \<and> path e = ''/''" .
  with Cons.IH [OF rest] show ?case by blast
qed

text \<open>
  Claim C7. On the dialog path every entry of the list that \<^verbatim>\<open>onUploadEnd\<close> receives
  is a File entry with the path \<^verbatim>\<open>/\<close>. In particular, for a selection of two PDF files
  and one text file, all readable, the PDFs within the size bound, and the category
  \<^verbatim>\<open>"pdf"\<close>, the delivered list is exactly the entries of the two PDFs, wherever the
  text file stands in the selection.
\<close>

theorem dialog_entries_are_root_files:
  "(OnUploadEnd its \<in> set (onChange p target_files) \<longrightarrow>
      (\<forall>e\<in>set its. type e = File \<and> path e = ''/'')) \<and>
   (fileType p = ''pdf'' \<and>
    file_type a = ''application/pdf'' \<and> file_type b = ''application/pdf'' \<and>
    topLevelSegment (file_type t) = ''text'' \<and>
    (maxSize p = - 1 \<or> int (file_size a) < maxSize p) \<and>
    (maxSize p = - 1 \<or> int (file_size b) < maxSize p) \<and>
    file_read a = OnLoad ra \<and> file_read b = OnLoad rb \<and> file_read t = OnLoad rt \<longrightarrow>
    (\<forall>selection \<in> {[Some a, Some b, Some t], [Some a, Some t, Some b],
                      [Some t, Some a, Some b]}.
       onChange p (Some selection) =
         [OnUploadStart,
          OnUploadEnd
            [\<lparr>path = ''/'', type = File, name = file_name a,
               mimeType = ''application/pdf'', data = resultString ra\<rparr>,
             \<lparr>path = ''/'', type = File, name = file_name b,
               mimeType = ''application/pdf'', data = resultString rb\<rparr>]]))"
proof (intro conjI impI)
  assume delivered: "OnUploadEnd its \<in> set (onChange p target_files)"
  then obtain fs where "onChange_for p fs [] = Some (Inr its)"
    by (auto simp: onChange_def split: option.splits if_splits sum.splits)
  from onChange_for_root_files [OF this]
  show "\<forall>e\<in>set its. type e = File \<and> path e = ''/''"
    by simp
next
  assume h: "fileType p = ''pdf'' \<and>
    file_type a = ''application/pdf'' \<and> file_type b = ''application/pdf'' \<and>
    topLevelSegment (file_type t) = ''text'' \<and>
    (maxSize p = - 1 \<or> int (file_size a) < maxSize p) \<and>
    (maxSize p = - 1 \<or> int (file_size b) < maxSize p) \<and>
    file_read a = OnLoad ra \<and> file_read b = OnLoad rb \<and> file_read t = OnLoad rt"
  then have ca: "checks p a" and cb: "checks p b"
    by (simp_all add: checks_def)
  from h have "file_type t \<noteq> ''application/pdf''"
    by (auto simp: topLevelSegment_def)
  with h have ct: "\<not> checks p t"
    by (simp add: checks_accepted accepted_def)
  from h have types: "js_or (file_type a) ''application/octet-stream'' = ''application/pdf''"
      "js_or (file_type b) ''application/octet-stream'' = ''application/pdf''"
    by (simp_all add: js_or_def)
  from h have reads: "file_read a = OnLoad ra" "file_read b = OnLoad rb"
      "file_read t = OnLoad rt"
    by simp_all
  show "\<forall>selection \<in> {[Some a, Some b, Some t], [Some a, Some t, Some b],
                      [Some t, Some a, Some b]}.
       onChange p (Some selection) =
         [OnUploadStart,
          OnUploadEnd
            [\<lparr>path = ''/'', type = File, name = file_name a,
               mimeType = ''application/pdf'', data = resultString ra\<rparr>,
             \<lparr>path = ''/'', type = File, name = file_name b,
               mimeType = ''application/pdf'', data = resultString rb\<rparr>]]"
    by (simp add: onChange_def readSelectedFile_def ca cb ct types reads)
qed

theorem dialog_entries_are_root_files_witness:
  "OnUploadEnd
     [\<lparr>path = ''/'', type = File, name = ''one.pdf'', mimeType = ''application/pdf'',
        data = ''data:application/pdf;base64,JVBERg==''\<rparr>,
      \<lparr>path = ''/'', type = File, name = ''two.pdf'', mimeType = ''application/pdf'',
        data = ''data:application/pdf;base64,JVBERi0=''\<rparr>]
     \<in> set (onChange pdfProps (Some [Some pdfOne, Some textFile, Some pdfTwo])) \<and>
   list_all (\<lambda>e. type e = File \<and> path e = ''/'')
     [\<lparr>path = ''/'', type = File, name = ''one.pdf'', mimeType = ''application/pdf'',
        data = ''data:application/pdf;base64,JVBERg==''\<rparr>,
      \<lparr>path = ''/'', type = File, name = ''two.pdf'', mimeType = ''application/pdf'',
        data = ''data:application/pdf;base64,JVBERi0=''\<rparr>] \<and>
   fileType pdfProps = ''pdf'' \<and>
   file_type pdfOne = ''application/pdf'' \<and> file_type pdfTwo = ''application/pdf'' \<and>
   topLevelSegment (file_type textFile) = ''text'' \<and>
   int (file_size pdfOne) < maxSize pdfProps \<and> int (file_size pdfTwo) < maxSize pdfProps \<and>
   onChange pdfProps (Some [Some pdfOne, Some textFile, Some pdfTwo]) =
     [OnUploadStart,
      OnUploadEnd
        [\<lparr>path = ''/'', type = File, name = ''one.pdf'', mimeType = ''application/pdf'',
           data = ''data:application/pdf;base64,JVBERg==''\<rparr>,
         \<lparr>path = ''/'', type = File, name = ''two.pdf'', mimeType = ''application/pdf'',
           data = ''data:application/pdf;base64,JVBERi0=''\<rparr>]]"
proof -
  let ?its = "[\<lparr>path = ''/'', type = File, name = ''one.pdf'', mimeType = ''application/pdf'',
        data = ''data:application/pdf;base64,JVBERg==''\<rparr>,
      \<lparr>path = ''/'', type = File, name = ''two.pdf'', mimeType = ''application/pdf'',
        data = ''data:application/pdf;base64,JVBERi0=''\<rparr>]"
  have h: "fileType pdfProps = ''pdf'' \<and>
    file_type pdfOne = ''application/pdf'' \<and> file_type pdfTwo = ''application/pdf'' \<and>
    topLevelSegment (file_type textFile) = ''text'' \<and>
    (maxSize pdfProps = - 1 \<or> int (file_size pdfOne) < maxSize pdfProps) \<and>
    (maxSize pdfProps = - 1 \<or> int (file_size pdfTwo) < maxSize pdfProps) \<and>
    file_read pdfOne = OnLoad (Some ''data:application/pdf;base64,JVBERg=='') \<and>
    file_read pdfTwo = OnLoad (Some ''data:application/pdf;base64,JVBERi0='') \<and>
    file_read textFile = OnLoad (Some ''data:text/plain;base64,aGk='')"
    by (simp add: pdfProps_def pdfOne_def pdfTwo_def textFile_def topLevelSegment_def)
  note inst = dialog_entries_are_root_files
    [of ?its pdfProps "Some [Some pdfOne, Some textFile, Some pdfTwo]" pdfOne pdfTwo textFile
      "Some ''data:application/pdf;base64,JVBERg==''"
      "Some ''data:application/pdf;base64,JVBERi0=''"
      "Some ''data:text/plain;base64,aGk=''"]
  from inst h have run: "onChange pdfProps (Some [Some pdfOne, Some textFile, Some pdfTwo]) =
     [OnUploadStart,
      OnUploadEnd
        [\<lparr>path = ''/'', type = File, name = file_name pdfOne,
           mimeType = ''application/pdf'',
           data = resultString (Some ''data:application/pdf;base64,JVBERg=='')\<rparr>,
         \<lparr>path = ''/'', type = File, name = file_name pdfTwo,
           mimeType = ''application/pdf'',
           data = resultString (Some ''data:application/pdf;base64,JVBERi0='')\<rparr>]]"
    by blast
  then have run': "onChange pdfProps (Some [Some pdfOne, Some textFile, Some pdfTwo]) =
     [OnUploadStart, OnUploadEnd ?its]"
    by (simp add: pdfOne_def pdfTwo_def resultString_def js_or_def)
  then have mem: "OnUploadEnd ?its \<in>
      set (onChange pdfProps (Some [Some pdfOne, Some textFile, Some pdfTwo]))"
    by simp
  with inst have "\<forall>e\<in>set ?its. type e = File \<and> path e = ''/''"
    by blast
  then have "list_all (\<lambda>e. type e = File \<and> path e = ''/'') ?its"
    by (simp only: list_all_iff)
  with mem run' h show ?thesis
    by (simp add: pdfProps_def pdfOne_def pdfTwo_def)
qed

lemma onChange_for_null_not_fulfilled:
  "i < length fs \<Longrightarrow> fs ! i = None \<Longrightarrow> onChange_for p fs its \<noteq> Some (Inr out)"
proof (induction fs arbitrary: i its)
  case Nil
  then show ?case by simp
next
  case (Cons fo fs)
  show ?case
  proof (cases i)
    case 0
    with Cons.prems show ?thesis
      by (simp add: readSelectedFile_def)
  next
    case (Suc j)
    with Cons.prems have "j < length fs" and "fs ! j = None"
      by simp_all
    from Cons.IH [OF this] show ?thesis
      by (auto split: option.splits sum.splits)
  qed
qed

lemma onChange_for_null_pending:
  "i < length fs \<Longrightarrow> fs ! i = None \<Longrightarrow>
   \<forall>j<i. \<forall>f. fs ! j = Some f \<longrightarrow> file_read f \<noteq> OnError \<Longrightarrow>
   onChange_for p fs its = None"
proof (induction fs arbitrary: i its)
  case Nil
  then show ?case by simp
next
  case (Cons fo fs)
  show ?case
  proof (cases i)
    case 0
    with Cons.prems show ?thesis
      by (simp add: readSelectedFile_def)
  next
    case (Suc j)
    with Cons.prems have j: "j < length fs" "fs ! j = None"
      by simp_all
    have earlier: "\<forall>l<j. \<forall>f. fs ! l = Some f \<longrightarrow> file_read f \<noteq> OnError"
    proof (intro allI impI)
      fix l f
      assume "l < j" and "fs ! l = Some f"
      with Cons.prems(3) [rule_format, of "Suc l" f] Suc show "file_read f \<noteq> OnError"
        by simp
    qed
    have head: "\<forall>f. fo = Some f \<longrightarrow> file_read f \<noteq> OnError"
      using Cons.prems(3) [rule_format, of 0] Suc by simp
    have rest: "\<And>its'. onChange_for p fs its' = None"
      using Cons.IH [OF j earlier] .
    from head show ?thesis
      by (cases fo) (auto simp: readSelectedFile_def rest split: readResult.splits)
  qed
qed

text \<open>
  Claim C10. When \<^verbatim>\<open>files.item(i)\<close> is null for an index \<open>i\<close> of the selection, the
  promise awaited for that index never settles, and neither does the loop from that index
  on, whatever it has collected; \<^verbatim>\<open>onChange\<close> calls
  \<^verbatim>\<open>onUploadStart\<close> and never \<^verbatim>\<open>onUploadEnd\<close>, the loop is never fulfilled, and
  unless the read of an earlier file fails (which rejects the handler before the index is
  reached) it never settles at all: the operation neither completes nor fails.
\<close>

theorem null_item_never_settles:
  assumes "i < length fs" and "fs ! i = None"
  shows "readSelectedFile p (fs ! i) its = None \<and>
         onChange_for p (drop i fs) its = None \<and>
         onChange p (Some fs) = [OnUploadStart] \<and>
         (\<forall>out. onChange_for p fs [] \<noteq> Some (Inr out)) \<and>
         ((\<forall>j<i. \<forall>f. fs ! j = Some f \<longrightarrow> file_read f \<noteq> OnError) \<longrightarrow>
            onChange_for p fs [] = None)"
proof -
  have not_fulfilled: "\<forall>out. onChange_for p fs [] \<noteq> Some (Inr out)"
    using onChange_for_null_not_fulfilled [OF assms] by blast
  from assms(1) have "length fs > 0"
    by (cases fs) simp_all
  with not_fulfilled have "onChange p (Some fs) = [OnUploadStart]"
    by (auto simp: onChange_def split: option.splits sum.splits)
  moreover have "readSelectedFile p (fs ! i) its = None"
    by (simp add: assms(2) readSelectedFile_def)
  moreover have "onChange_for p (drop i fs) its = None"
  proof -
    have "drop i fs = None # drop (Suc i) fs"
      using Cons_nth_drop_Suc [OF assms(1)] assms(2) by simp
    then show ?thesis
      by (simp add: readSelectedFile_def)
  qed
  ultimately show ?thesis
    using not_fulfilled onChange_for_null_pending [OF assms] by blast
qed

theorem null_item_never_settles_witness:
  "[Some pdfOne, None, Some pdfTwo] ! 1 = None \<and>
   file_read pdfOne \<noteq> OnError \<and>
   readSelectedFile pdfProps ([Some pdfOne, None, Some pdfTwo] ! 1) [] = None \<and>
   onChange_for pdfProps (drop 1 [Some pdfOne, None, Some pdfTwo]) [] = None \<and>
   onChange pdfProps (Some [Some pdfOne, None, Some pdfTwo]) = [OnUploadStart] \<and>
   onChange_for pdfProps [Some pdfOne, None, Some pdfTwo] [] = None"
proof -
  have h1: "1 < length [Some pdfOne, None, Some pdfTwo]"
    by simp
  have h2: "[Some pdfOne, None, Some pdfTwo] ! 1 = None"
    by simp
  have h3: "file_read pdfOne \<noteq> OnError"
    by (simp add: pdfOne_def)
  then have h4: "\<forall>j<1. \<forall>f. [Some pdfOne, None, Some pdfTwo] ! j = Some f \<longrightarrow>
      file_read f \<noteq> OnError"
    by simp
  from null_item_never_settles [OF h1 h2, of pdfProps "[]"] h4 h2 h3
  show ?thesis by blast
qed

subsection \<open>The size formatter\<close>

lemma formatFileSize_examples:
  "formatFileSize 2500000 = ''2.5 MB''"
  "formatFileSize 500 = ''500 bytes''"
  "formatFileSize 1 = ''1 byte''"
  "formatFileSize 0 = ''0 GB''"
  "formatFileSize 10000000 = ''10.0 MB''"
  "formatFileSize 1000000000000 = ''10.0 TB''"
  by (simp_all add: formatFileSize_def toFixed1_def digit_def)

lemma formatFileSize_not_positive: "bytes \<le> 0 \<Longrightarrow> formatFileSize bytes = ''0 GB''"
  by (simp add: formatFileSize_def)

text \<open>
  Claim C8 fails on the code in the gigabyte branch: it divides by \<open>10^8\<close>, not by
  \<open>10^9\<close>, so 2,500,000,000 bytes are rendered as \<^verbatim>\<open>25.0 GB\<close>, ten times the value
  in gigabytes.
\<close>

theorem formatFileSize_gigabytes_tenfold:
  "formatFileSize 2500000000 = ''25.0 GB''"
  by (simp add: formatFileSize_def toFixed1_def digit_def)

end
